theory Spec2Isabelle
  imports
    Complex_Main
    "HOL-Library.Sublist"
    "HOL-Library.Char_ord"
    "HOL-Library.List_Lexorder"
    "HOL-Library.Product_Lexorder"
    "HOL-Library.AList"
    "HOL-Library.Multiset"
begin

section \<open>Python values\<close>

text \<open>
  The three scripts under \<^verbatim>\<open>scripts/failure_mode_analysis\<close> work on what
  \<^verbatim>\<open>json.load\<close> returns: \<^verbatim>\<open>None\<close>, booleans, numbers, strings, lists and
  dictionaries. A dictionary is the list of its items in insertion order, read with
  \<open>map_of\<close>. Text is a list of 8-bit characters: the whitespace, lower-casing and
  ordering below are those of ASCII text. A float is carried by the real number it
  denotes (no NaN, no infinities).
\<close>

datatype json =
    JNull
  | JBool bool
  | JInt int
  | JFloat real
  | JStr string
  | JList "json list"
  | JDict "(string \<times> json) list"

type_synonym pydict = "(string \<times> json) list"

text \<open>Exceptions are values; the text carried is the message.\<close>

datatype py_error =
    ValueError string
  | TypeError string
  | AttributeError string
  | FileNotFoundError string
  | RuntimeError string
  | External string \<comment> \<open>an exception raised by a collaborator and passed on unchanged\<close>

text \<open>\<^verbatim>\<open>d.get(k, default)\<close>\<close>

definition dict_get :: "pydict \<Rightarrow> string \<Rightarrow> json \<Rightarrow> json" where
  "dict_get d k dflt = (case map_of d k of None \<Rightarrow> dflt | Some v \<Rightarrow> v)"

text \<open>Truth value testing, and \<^verbatim>\<open>a or b\<close>.\<close>

fun truthy :: "json \<Rightarrow> bool" where
  "truthy JNull = False"
| "truthy (JBool b) = b"
| "truthy (JInt i) = (i \<noteq> 0)"
| "truthy (JFloat r) = (r \<noteq> 0)"
| "truthy (JStr s) = (s \<noteq> [])"
| "truthy (JList xs) = (xs \<noteq> [])"
| "truthy (JDict d) = (d \<noteq> [])"

definition py_or :: "json \<Rightarrow> json \<Rightarrow> json" where
  "py_or a b = (if truthy a then a else b)"

text \<open>
  \<^verbatim>\<open>str(v)\<close> returns a string unchanged. What the built-in prints for any other value
  is not code of this repository: it is the parameter \<open>R\<close> of every function that
  calls \<^verbatim>\<open>str\<close> or formats a value.
\<close>

definition py_str :: "(json \<Rightarrow> string) \<Rightarrow> json \<Rightarrow> string" where
  "py_str R v = (case v of JStr s \<Rightarrow> s | _ \<Rightarrow> R v)"

text \<open>\<^verbatim>\<open>str.strip()\<close> and \<^verbatim>\<open>str.lower()\<close> on ASCII text.\<close>

definition py_isspace :: "char \<Rightarrow> bool" where
  "py_isspace c = (c \<in> set [CHR 0x09, CHR 0x0A, CHR 0x0B, CHR 0x0C, CHR 0x0D,
                              CHR 0x1C, CHR 0x1D, CHR 0x1E, CHR 0x1F, CHR 0x20])"

definition py_strip :: "string \<Rightarrow> string" where
  "py_strip s = rev (dropWhile py_isspace (rev (dropWhile py_isspace s)))"

definition char_lower :: "char \<Rightarrow> char" where
  "char_lower c =
     (case map_of (zip ''ABCDEFGHIJKLMNOPQRSTUVWXYZ'' ''abcdefghijklmnopqrstuvwxyz'') c of
        None \<Rightarrow> c
      | Some l \<Rightarrow> l)"

definition py_lower :: "string \<Rightarrow> string" where
  "py_lower s = map char_lower s"



text \<open>\<^verbatim>\<open>range(i, stop, step)\<close> for a start that is not negative, and a slice.\<close>

function range_step :: "nat \<Rightarrow> nat \<Rightarrow> nat \<Rightarrow> nat list" where
  "range_step i stop step =
     (if step = 0 \<or> stop \<le> i then [] else i # range_step (i + step) stop step)"
  by pat_completeness auto
termination
  by (relation "measure (\<lambda>(i, stop, step). stop - i)") auto

declare range_step.simps [simp del]

definition slice :: "'a list \<Rightarrow> nat \<Rightarrow> nat \<Rightarrow> 'a list" where
  "slice seq i j = take (j - i) (drop i seq)"


section \<open>\<^verbatim>\<open>analyze_llm_nodes.py\<close>\<close>

definition SYSTEM_PROMPT :: string where
  "SYSTEM_PROMPT =
     ''\<newline>Do you see any issues in the following?\<newline>'' @
     ''You must only report issues that you are sure are unintended.\<newline>'' @
     ''For example, the code might make assumptions, e.g., that a GPU is available, or that a certain file exists, etc.\<newline>'' @
     ''This is OK! Don't report these as issues. Only report issues that you are sure are unintended.\<newline>'' @
     ''Whenever possible, extract short code snippets that are relevant to the issue and explain how to fix them.\<newline>''"

definition build_user_prompt :: "string \<Rightarrow> string \<Rightarrow> string \<Rightarrow> string" where
  "build_user_prompt plan code run_analysis =
     ''<plan>\<newline>'' @ plan @ ''\<newline></plan>\<newline>\<newline>'' @
     ''<code>\<newline>'' @ code @ ''\<newline></code>\<newline>\<newline>'' @
     ''<run_analysis>\<newline>'' @ run_analysis @ ''\<newline></run_analysis>\<newline>''"

text \<open>
  Lines 82 to 89 of \<^verbatim>\<open>analyze_single_node\<close>: the value bound to the local
  \<^verbatim>\<open>parent_analysis\<close>. The test \<^verbatim>\<open>parent_id in id_to_node\<close> hashes its left
  operand, which raises for a list or a dictionary; a number or \<^verbatim>\<open>True\<close> is
  hashable and equals no string key. \<^verbatim>\<open>.strip()\<close> exists on strings only.
\<close>

definition parent_analysis_of :: "pydict \<Rightarrow> (string \<rightharpoonup> pydict) \<Rightarrow> py_error + string" where
  "parent_analysis_of node id_to_node =
     (let parent_id = dict_get node ''parent'' JNull in
      if \<not> truthy parent_id then Inr ''No parent node''
      else
        (case parent_id of
           JList _ \<Rightarrow> Inl (TypeError ''unhashable type: list'')
         | JDict _ \<Rightarrow> Inl (TypeError ''unhashable type: dict'')
         | JStr pid \<Rightarrow>
             (case id_to_node pid of
                None \<Rightarrow> Inr ''No parent node''
              | Some parent \<Rightarrow>
                  (case py_or (dict_get parent ''analysis'' (JStr [])) (JStr []) of
                     JStr parent_analysis \<Rightarrow>
                       if py_strip parent_analysis = [] then Inr ''No parent node''
                       else Inr parent_analysis
                   | _ \<Rightarrow> Inl (AttributeError ''object has no attribute strip'')))
         | _ \<Rightarrow> Inr ''No parent node''))"

text \<open>
  The completion service is a collaborator: \<open>client developer user\<close> is what one call
  with these two prompts does, either raising (\<open>Inl\<close>, the text of the exception) or
  returning a response object. Of the response the code reads \<^verbatim>\<open>output_text\<close> (absent
  when the attribute access raises), then \<^verbatim>\<open>model_dump_json\<close> (absent when that
  raises), then \<^verbatim>\<open>str(response)\<close>.
\<close>

record response =
  output_text :: "string option"
  model_dump_json :: "string option"
  response_str :: string

definition extract_output_text :: "response \<Rightarrow> string" where
  "extract_output_text r =
     (case output_text r of
        Some t \<Rightarrow> if t \<noteq> [] then t
                  else (case model_dump_json r of Some j \<Rightarrow> j | None \<Rightarrow> response_str r)
      | None \<Rightarrow> (case model_dump_json r of Some j \<Rightarrow> j | None \<Rightarrow> response_str r))"

definition analyze_single_node ::
  "(json \<Rightarrow> string) \<Rightarrow> (string \<Rightarrow> string \<Rightarrow> string + response) \<Rightarrow> pydict \<Rightarrow>
   (string \<rightharpoonup> pydict) \<Rightarrow> py_error + (string \<times> string \<times> string)" where
  "analyze_single_node R client node id_to_node =
     (let node_id = py_str R (dict_get node ''id'' (JStr ''unknown'')) in
      case parent_analysis_of node id_to_node of
        Inl e \<Rightarrow> Inl e
      | Inr parent_analysis \<Rightarrow>
          (let plan = py_or (dict_get node ''plan'' (JStr [])) (JStr []);
               code = py_or (dict_get node ''code'' (JStr [])) (JStr []);
               run_analysis = py_or (dict_get node ''analysis'' (JStr [])) (JStr []);
               user_prompt = build_user_prompt (py_str R plan) (py_str R code) (py_str R run_analysis)
           in Inr (node_id, user_prompt,
                   (case client SYSTEM_PROMPT user_prompt of
                      Inr resp \<Rightarrow> extract_output_text resp
                    | Inl e \<Rightarrow> ''ERROR during analysis: '' @ e))))"

text \<open>
  \<^verbatim>\<open>main_async\<close>, lines 174 to 180. \<^verbatim>\<open>random.sample(population, k)\<close> belongs to the
  standard library: it returns the elements at \<open>k\<close> positions of the population, no
  position twice. The positions the random source picks are the parameter \<open>picks\<close>,
  and \<open>valid_picks\<close> is that contract.
\<close>

definition build_id_to_node :: "(json \<Rightarrow> string) \<Rightarrow> pydict list \<Rightarrow> (string \<rightharpoonup> pydict)" where
  "build_id_to_node R all_nodes =
     fold (\<lambda>n m. m(py_str R (dict_get n ''id'' JNull) \<mapsto> n)) all_nodes Map.empty"





section \<open>\<^verbatim>\<open>classify_feedbacks.py\<close>\<close>

subsection \<open>Collecting the feedback files\<close>

text \<open>
  The part of the file system the collector looks at is a tree. A file carries its
  text, or nothing when opening or decoding it raises. A directory carries its entries
  in the order \<^verbatim>\<open>os.listdir\<close> returns them, and whether listing it succeeds.
  The file system does not change during a call, so a path the code stores is
  represented by the node it leads to.
\<close>

datatype fsnode =
    File "string option"
  | Dir bool "(string \<times> fsnode) list"
  | Other













subsection \<open>Batches\<close>



text \<open>
  \<^verbatim>\<open>chunks\<close>, the list comprehension over \<^verbatim>\<open>range(0, len(seq), size)\<close>. A step of
  zero makes \<^verbatim>\<open>range\<close> raise, and a negative one makes it empty.
\<close>

definition chunks :: "'a list \<Rightarrow> int \<Rightarrow> py_error + 'a list list" where
  "chunks seq sz =
     (if sz = 0 then Inl (ValueError ''range() arg 3 must not be zero'')
      else if sz < 0 then Inr []
      else Inr (map (\<lambda>i. slice seq i (i + nat sz)) (range_step 0 (length seq) (nat sz))))"









section \<open>\<^verbatim>\<open>merge_taxonomies.py\<close>\<close>

fun is_str :: "json \<Rightarrow> bool" where
  "is_str (JStr _) = True"
| "is_str _ = False"

fun is_list :: "json \<Rightarrow> bool" where
  "is_list (JList _) = True"
| "is_list _ = False"

definition is_taxonomy_file :: "json \<Rightarrow> bool" where
  "is_taxonomy_file payload =
     (case payload of
        JDict d \<Rightarrow>
          (if map_of d ''taxonomy_name'' = None \<or> map_of d ''classifications'' = None then False
           else if \<not> is_str (dict_get d ''taxonomy_name'' JNull) then False
           else if \<not> is_list (dict_get d ''classifications'' JNull) then False
           else True)
      | _ \<Rightarrow> False)"

text \<open>
  \<^verbatim>\<open>data["taxonomy_name"]\<close> and \<^verbatim>\<open>data["classifications"]\<close>. The code reads them
  only from a payload that passed \<open>is_taxonomy_file\<close>, where the first is a string and
  the second a list.
\<close>

definition taxonomy_name_of :: "json \<Rightarrow> string" where
  "taxonomy_name_of data =
     (case data of
        JDict d \<Rightarrow> (case map_of d ''taxonomy_name'' of Some (JStr s) \<Rightarrow> s | _ \<Rightarrow> [])
      | _ \<Rightarrow> [])"

definition classifications_of :: "json \<Rightarrow> json list" where
  "classifications_of data =
     (case data of
        JDict d \<Rightarrow> (case map_of d ''classifications'' of Some (JList xs) \<Rightarrow> xs | _ \<Rightarrow> [])
      | _ \<Rightarrow> [])"

text \<open>The de-duplication key of an entry, and the key its list is sorted by.\<close>

definition entry_key :: "(json \<Rightarrow> string) \<Rightarrow> pydict \<Rightarrow> string \<times> string \<times> string \<times> string" where
  "entry_key R entry =
     (let issue = py_str R (dict_get entry ''issue'' (JStr []));
          node_id = py_str R (dict_get entry ''node_id'' (JStr []));
          level1 = py_str R (dict_get entry ''level1'' (JStr []));
          level2 = py_str R (dict_get entry ''level2'' (JStr []))
      in (node_id, issue, level1, level2))"

definition sort_key_of :: "(json \<Rightarrow> string) \<Rightarrow> pydict \<Rightarrow> string \<times> string" where
  "sort_key_of R e =
     (py_str R (dict_get e ''node_id'' (JStr [])),
      py_lower (py_str R (dict_get e ''issue'' (JStr []))))"

text \<open>
  The two dictionaries of \<^verbatim>\<open>merge_taxonomies\<close>. \<open>taxonomy_to_items\<close> keeps its items
  in insertion order. \<open>taxonomy_to_seen\<close> is only ever read at a name that was stored
  before, so it is a total function, and a name never stored reads as the empty set.
\<close>

record merge_state =
  taxonomy_to_items :: "(string \<times> pydict list) list"
  taxonomy_to_seen :: "string \<Rightarrow> (string \<times> string \<times> string \<times> string) set"

definition items_at :: "(string \<times> pydict list) list \<Rightarrow> string \<Rightarrow> pydict list" where
  "items_at al tname = (case map_of al tname of None \<Rightarrow> [] | Some its \<Rightarrow> its)"

definition add_entry :: "(json \<Rightarrow> string) \<Rightarrow> string \<Rightarrow> json \<Rightarrow> merge_state \<Rightarrow> merge_state" where
  "add_entry R taxonomy_name entry st =
     (case entry of
        JDict e \<Rightarrow>
          (let key = entry_key R e in
           if key \<in> taxonomy_to_seen st taxonomy_name then st
           else st\<lparr>taxonomy_to_seen :=
                      (taxonomy_to_seen st)
                        (taxonomy_name := insert key (taxonomy_to_seen st taxonomy_name)),
                    taxonomy_to_items :=
                      AList.update taxonomy_name
                        (items_at (taxonomy_to_items st) taxonomy_name @ [e])
                        (taxonomy_to_items st)\<rparr>)
      | _ \<Rightarrow> st)"

definition add_file :: "(json \<Rightarrow> string) \<Rightarrow> json \<Rightarrow> merge_state \<Rightarrow> merge_state" where
  "add_file R data st =
     (let taxonomy_name = taxonomy_name_of data;
          items = classifications_of data;
          st1 = (if map_of (taxonomy_to_items st) taxonomy_name = None
                 then st\<lparr>taxonomy_to_items := taxonomy_to_items st @ [(taxonomy_name, [])],
                         taxonomy_to_seen := (taxonomy_to_seen st)(taxonomy_name := {})\<rparr>
                 else st)
      in fold (add_entry R taxonomy_name) items st1)"

text \<open>
  The loop over the input files. \<open>load_json path\<close> is what opening and parsing the
  file does: the parsed value, or \<open>Inl\<close> with the text of the exception.
\<close>

fun merge_files ::
  "(json \<Rightarrow> string) \<Rightarrow> (string \<Rightarrow> string + json) \<Rightarrow> bool \<Rightarrow> string list \<Rightarrow> merge_state \<Rightarrow>
   py_error + merge_state" where
  "merge_files R load_json ignore_errors [] st = Inr st"
| "merge_files R load_json ignore_errors (path # rest) st =
     (case load_json path of
        Inl e \<Rightarrow>
          if ignore_errors then merge_files R load_json ignore_errors rest st
          else Inl (External e)
      | Inr data \<Rightarrow>
          if \<not> is_taxonomy_file data then
            (if ignore_errors then merge_files R load_json ignore_errors rest st
             else Inl (ValueError (''Invalid taxonomy file format: '' @ path)))
          else merge_files R load_json ignore_errors rest (add_file R data st))"

definition taxonomy_payload :: "string \<Rightarrow> pydict list \<Rightarrow> json" where
  "taxonomy_payload tname its =
     JDict [(''taxonomy_name'', JStr tname), (''classifications'', JList (map JDict its))]"

definition merge_taxonomies ::
  "(json \<Rightarrow> string) \<Rightarrow> (string \<Rightarrow> string + json) \<Rightarrow> string list \<Rightarrow> bool \<Rightarrow> py_error + json" where
  "merge_taxonomies R load_json input_files ignore_errors =
     (case merge_files R load_json ignore_errors input_files
             \<lparr>taxonomy_to_items = [], taxonomy_to_seen = (\<lambda>t. {})\<rparr> of
        Inl e \<Rightarrow> Inl e
      | Inr st \<Rightarrow>
          (let sorted_items = (\<lambda>tname. sort_key (sort_key_of R)
                                          (items_at (taxonomy_to_items st) tname))
           in case map fst (taxonomy_to_items st) of
                [] \<Rightarrow> Inl (RuntimeError ''No valid taxonomy files found to merge.'')
              | [tname] \<Rightarrow> Inr (taxonomy_payload tname (sorted_items tname))
              | names \<Rightarrow>
                  Inr (JDict [(''taxonomies'',
                         JList (map (\<lambda>tname. taxonomy_payload tname (sorted_items tname))
                                  (sort names)))])))"


section \<open>What the merge computes\<close>

text \<open>
  The description the merged result is compared with: the files that load and pass the
  shape check, the entries of the files of one taxonomy name in input order, of these
  the ones that are dictionaries, and of these the first one for each key.
\<close>

definition file_ok :: "(string \<Rightarrow> string + json) \<Rightarrow> string \<Rightarrow> bool" where
  "file_ok load_json path =
     (case load_json path of Inl e \<Rightarrow> False | Inr data \<Rightarrow> is_taxonomy_file data)"

definition file_error :: "(string \<Rightarrow> string + json) \<Rightarrow> string \<Rightarrow> py_error" where
  "file_error load_json path =
     (case load_json path of
        Inl e \<Rightarrow> External e
      | Inr data \<Rightarrow> ValueError (''Invalid taxonomy file format: '' @ path))"

definition valid_payloads :: "(string \<Rightarrow> string + json) \<Rightarrow> string list \<Rightarrow> json list" where
  "valid_payloads load_json files =
     concat (map (\<lambda>path. case load_json path of
                            Inl e \<Rightarrow> []
                          | Inr data \<Rightarrow> if is_taxonomy_file data then [data] else []) files)"

definition dict_entries :: "json list \<Rightarrow> pydict list" where
  "dict_entries xs = concat (map (\<lambda>v. case v of JDict d \<Rightarrow> [d] | _ \<Rightarrow> []) xs)"

fun first_seen :: "('a \<Rightarrow> 'k) \<Rightarrow> 'k set \<Rightarrow> 'a list \<Rightarrow> 'a list" where
  "first_seen key seen [] = []"
| "first_seen key seen (x # xs) =
     (if key x \<in> seen then first_seen key seen xs
      else x # first_seen key (insert (key x) seen) xs)"

definition entries_named :: "json list \<Rightarrow> string \<Rightarrow> json list" where
  "entries_named payloads tname =
     concat (map classifications_of (filter (\<lambda>d. taxonomy_name_of d = tname) payloads))"

definition merged_entries :: "(json \<Rightarrow> string) \<Rightarrow> json list \<Rightarrow> string \<Rightarrow> pydict list" where
  "merged_entries R payloads tname =
     sort_key (sort_key_of R)
       (first_seen (entry_key R) {} (dict_entries (entries_named payloads tname)))"

definition merged_result :: "(json \<Rightarrow> string) \<Rightarrow> json list \<Rightarrow> py_error + json" where
  "merged_result R payloads =
     (case sort (remdups (map taxonomy_name_of payloads)) of
        [] \<Rightarrow> Inl (RuntimeError ''No valid taxonomy files found to merge.'')
      | [tname] \<Rightarrow> Inr (taxonomy_payload tname (merged_entries R payloads tname))
      | names \<Rightarrow>
          Inr (JDict [(''taxonomies'',
                 JList (map (\<lambda>tname. taxonomy_payload tname (merged_entries R payloads tname))
                          names))]))"


section \<open>Vocabulary of the statements\<close>














section \<open>The prompt of a node\<close>

text \<open>
  The prompt sent for a node, and the text recorded for it, do not depend on the
  identifier-to-node mapping: whatever the parent holds, they are the same.
\<close>

lemma user_prompt_ignores_parent:
  assumes "analyze_single_node R client node m1 = Inr (i1, p1, o1)"
      and "analyze_single_node R client node m2 = Inr (i2, p2, o2)"
  shows "i1 = i2 \<and> p1 = p2 \<and> o1 = o2"
  using assms
  by (auto simp: analyze_single_node_def Let_def split: sum.splits)

text \<open>
  C1. The claim is that the prompt sent for a node holds four parts: the plan, the
  code, the run analysis and the prior analysis of the parent. At the node below, whose
  parent holds the analysis \<^verbatim>\<open>parent verdict\<close>, the local \<^verbatim>\<open>parent_analysis\<close> is
  computed as that text, and the two prompts handed to the completion service are the
  fixed developer prompt and a user prompt with the plan, the code and the run analysis
  only: the parent's analysis occurs in neither.
\<close>

theorem analyze_single_node_omits_parent_analysis:
  "parent_analysis_of
       [(''id'', JStr ''child''), (''parent'', JStr ''root''), (''plan'', JStr ''P''),
        (''code'', JStr ''C''), (''analysis'', JStr ''A'')]
       [''root'' \<mapsto> [(''id'', JStr ''root''), (''analysis'', JStr ''parent verdict'')]]
     = Inr ''parent verdict''
   \<and> analyze_single_node R client
       [(''id'', JStr ''child''), (''parent'', JStr ''root''), (''plan'', JStr ''P''),
        (''code'', JStr ''C''), (''analysis'', JStr ''A'')]
       [''root'' \<mapsto> [(''id'', JStr ''root''), (''analysis'', JStr ''parent verdict'')]]
     = Inr (''child'',
            ''<plan>\<newline>P\<newline></plan>\<newline>\<newline><code>\<newline>C\<newline></code>\<newline>\<newline><run_analysis>\<newline>A\<newline></run_analysis>\<newline>'',
            (case client SYSTEM_PROMPT
                    ''<plan>\<newline>P\<newline></plan>\<newline>\<newline><code>\<newline>C\<newline></code>\<newline>\<newline><run_analysis>\<newline>A\<newline></run_analysis>\<newline>'' of
               Inr resp \<Rightarrow> extract_output_text resp
             | Inl e \<Rightarrow> ''ERROR during analysis: '' @ e))
   \<and> \<not> sublist ''parent verdict''
         ''<plan>\<newline>P\<newline></plan>\<newline>\<newline><code>\<newline>C\<newline></code>\<newline>\<newline><run_analysis>\<newline>A\<newline></run_analysis>\<newline>''
   \<and> \<not> sublist ''parent verdict'' SYSTEM_PROMPT"
proof -
  have pa: "parent_analysis_of
       [(''id'', JStr ''child''), (''parent'', JStr ''root''), (''plan'', JStr ''P''),
        (''code'', JStr ''C''), (''analysis'', JStr ''A'')]
       [''root'' \<mapsto> [(''id'', JStr ''root''), (''analysis'', JStr ''parent verdict'')]]
     = Inr ''parent verdict''"
    by (simp add: parent_analysis_of_def dict_get_def py_or_def py_strip_def py_isspace_def)
  have s1: "\<not> sublist ''parent verdict''
         ''<plan>\<newline>P\<newline></plan>\<newline>\<newline><code>\<newline>C\<newline></code>\<newline>\<newline><run_analysis>\<newline>A\<newline></run_analysis>\<newline>''"
    by (simp add: sublist_code)
  have s2: "\<not> sublist ''parent verdict'' SYSTEM_PROMPT"
    by (simp add: SYSTEM_PROMPT_def sublist_code)
  show ?thesis
    using pa s1 s2
    by (simp add: analyze_single_node_def Let_def dict_get_def py_or_def py_str_def
          build_user_prompt_def)
qed


section \<open>The parent-analysis slot\<close>




text \<open>
  An empty parent identifier counts as no parent, even when the mapping has that key;
  a parent identifier that is a list cannot be looked up, and the call raises.
\<close>

lemma parent_analysis_empty_id:
  "parent_analysis_of [(''id'', JStr ''child''), (''parent'', JStr [])]
         [[] \<mapsto> [(''id'', JStr []), (''analysis'', JStr ''looks fine'')]]
       = Inr ''No parent node''"
  by (simp add: parent_analysis_of_def dict_get_def)

lemma parent_analysis_unhashable:
  "parent_analysis_of [(''parent'', JList [JInt 1])] id_to_node = Inl (TypeError ''unhashable type: list'')"
  by (simp add: parent_analysis_of_def dict_get_def)


section \<open>Choosing the nodes to analyse\<close>





section \<open>Collecting feedback\<close>







section \<open>Batching\<close>

lemma div_plus_step:
  fixes a s :: nat
  shows "0 < s \<Longrightarrow> (a + s) div s = Suc (a div s)"
  by simp

lemma ceil_div_step:
  fixes d s :: nat
  assumes "0 < s" "0 < d"
  shows "(d + s - 1) div s = Suc ((d - s + s - 1) div s)"
proof (cases "s \<le> d")
  case True
  define a where "a = d - s + s - 1"
  from True assms have "d + s - 1 = a + s" by (simp add: a_def)
  then show ?thesis using div_plus_step [OF assms(1), of a] by (simp add: a_def)
next
  case False
  define a where "a = d - 1"
  from False assms have small: "d - s + s - 1 < s" by simp
  from False assms have b: "d + s - 1 = a + s" and c: "a < s" by (simp_all add: a_def)
  from c have "a div s = 0" by simp
  with b div_plus_step [OF assms(1), of a] have "(d + s - 1) div s = Suc 0" by simp
  with small show ?thesis by simp
qed

lemma range_step_length:
  "0 < s \<Longrightarrow> length (range_step i n s) = (n - i + s - 1) div s"
proof (induction i n s rule: range_step.induct)
  case (1 i stop step)
  show ?case
  proof (cases "stop \<le> i")
    case True
    with 1(2) show ?thesis by (simp add: range_step.simps [of i stop step])
  next
    case False
    then have "0 < stop - i" by simp
    from ceil_div_step [OF 1(2) this]
    have "(stop - i + step - 1) div step = Suc ((stop - (i + step) + step - 1) div step)"
      by simp
    with False 1 show ?thesis by (simp add: range_step.simps [of i stop step])
  qed
qed

lemma range_step_nth:
  "0 < s \<Longrightarrow> j < length (range_step i n s) \<Longrightarrow> range_step i n s ! j = i + j * s"
proof (induction i n s arbitrary: j rule: range_step.induct)
  case (1 i stop step)
  show ?case
  proof (cases "stop \<le> i")
    case True
    with 1(3) show ?thesis by (simp add: range_step.simps [of i stop step])
  next
    case False
    with 1 show ?thesis
      by (cases j) (simp_all add: range_step.simps [of i stop step])
  qed
qed

lemma range_step_concat:
  "0 < s \<Longrightarrow> concat (map (\<lambda>i. slice xs i (i + s)) (range_step i (length xs) s)) = drop i xs"
proof (induction i "length xs" s rule: range_step.induct)
  case (1 i step)
  show ?case
  proof (cases "length xs \<le> i")
    case True
    then show ?thesis by (simp add: range_step.simps [of i "length xs" step])
  next
    case False
    with 1 have "concat (map (\<lambda>i. slice xs i (i + step)) (range_step (i + step) (length xs) step))
        = drop (i + step) xs" by simp
    moreover have "take step (drop i xs) @ drop (i + step) xs = drop i xs"
      using append_take_drop_id [of step "drop i xs"] by (simp add: add.commute)
    ultimately show ?thesis using False 1(2)
      by (simp add: range_step.simps [of i "length xs" step] slice_def)
  qed
qed


lemma range_step_bound: "x \<in> set (range_step i n s) \<Longrightarrow> x < n"
proof (induction i n s rule: range_step.induct)
  case (1 i stop step)
  then show ?case
    by (cases "step = 0 \<or> stop \<le> i") (auto simp: range_step.simps [of i stop step])
qed

lemma ceil_div_nat:
  fixes n b :: nat
  assumes "0 < b"
  shows "\<lceil>real n / real b\<rceil> = int ((n + b - 1) div b)"
proof -
  define z where "z = (n + b - 1) div b"
  have up: "n \<le> z * b"
  proof -
    have "n + b - 1 < z * b + b" unfolding z_def
      using assms by (metis add.commute div_mult_mod_eq mod_less_divisor nat_add_left_cancel_less mult.commute)
    then show ?thesis using assms by simp
  qed
  have lo: "z * b < n + b"
  proof -
    have "z * b \<le> n + b - 1" unfolding z_def by simp
    then show ?thesis using assms by simp
  qed
  have "real n / real b \<le> real z"
    using up assms by (simp add: pos_divide_le_eq flip: of_nat_mult)
  moreover have "real z - 1 < real n / real b"
  proof -
    from lo have "real (z * b) < real (n + b)" using of_nat_less_iff by blast
    then have "real z * real b - real b < real n" by simp
    then have "(real z - 1) * real b < real n" by (simp add: algebra_simps)
    then show ?thesis using assms by (simp add: pos_less_divide_eq)
  qed
  ultimately have "\<lceil>real n / real b\<rceil> = int z"
    by (simp add: ceiling_unique)
  then show ?thesis by (simp add: z_def)
qed

lemma div_add_mult:
  fixes a b q :: nat
  shows "0 < b \<Longrightarrow> a < b \<Longrightarrow> (a + q * b) div b = q"
  by simp

lemma last_chunk_size:
  fixes n b :: nat
  assumes "0 < b" "0 < n"
  shows "min b (n - ((n + b - 1) div b - 1) * b) = (if n mod b = 0 then b else n mod b)"
proof (cases "n mod b = 0")
  case True
  define q where "q = n div b"
  define a where "a = b - 1"
  have q: "n = q * b" using True div_mult_mod_eq [of n b] by (simp add: q_def)
  with assms have qpos: "0 < q" by (cases q) simp_all
  have a: "a < b" using assms by (simp add: a_def)
  have e: "n + b - 1 = a + q * b" using assms q by (simp add: a_def)
  have L: "(n + b - 1) div b = q"
    unfolding e by (rule div_add_mult [OF assms(1) a])
  have "q * b - (q - 1) * b = b" using qpos by (simp add: diff_mult_distrib)
  then have "n - (q - 1) * b = b" using q by simp
  then show ?thesis unfolding L using True by simp
next
  case False
  define q r a where "q = n div b" and "r = n mod b" and "a = n mod b - 1"
  have n: "n = r + q * b" and r: "0 < r" "r < b" using False assms by (simp_all add: q_def r_def)
  have a: "a < b" using r by (simp add: a_def r_def)
  have e: "n + b - 1 = a + Suc q * b" using n r by (simp add: a_def r_def)
  have L: "(n + b - 1) div b = Suc q"
    unfolding e by (rule div_add_mult [OF assms(1) a])
  have "n - (Suc q - 1) * b = r" using n by simp
  then show ?thesis unfolding L using False r by (simp add: r_def)
qed

text \<open>
  C4. For a batch size \<open>B\<close> of at least one, \<^verbatim>\<open>chunks\<close> returns
  \<open>\<lceil>N / B\<rceil>\<close> batches, where \<open>N\<close> is the number of items; their concatenation
  is the input; batch \<open>j\<close> is the \<open>B\<close> items from position \<open>j * B\<close> on; every
  batch but the last has \<open>B\<close> items and the last one \<open>N mod B\<close>, or \<open>B\<close> when
  \<open>B\<close> divides \<open>N\<close>.
\<close>

theorem chunks_batches:
  assumes "1 \<le> B"
  shows "\<exists>bs. chunks xs B = Inr bs
     \<and> int (length bs) = \<lceil>real (length xs) / real_of_int B\<rceil>
     \<and> concat bs = xs
     \<and> (\<forall>j < length bs. bs ! j = take (nat B) (drop (j * nat B) xs))
     \<and> (\<forall>j. Suc j < length bs \<longrightarrow> length (bs ! j) = nat B)
     \<and> (bs \<noteq> [] \<longrightarrow>
          length (last bs) = (if length xs mod nat B = 0 then nat B else length xs mod nat B))"
proof -
  define b where "b = nat B"
  define n where "n = length xs"
  define bs where "bs = map (\<lambda>i. slice xs i (i + b)) (range_step 0 n b)"
  have bpos: "0 < b" using assms by (simp add: b_def)
  have B: "real_of_int B = real b" using assms by (simp add: b_def)
  have ch: "chunks xs B = Inr bs" using assms by (simp add: chunks_def bs_def b_def n_def)
  have len: "length bs = (n + b - 1) div b"
    using range_step_length [OF bpos, of 0 n] by (simp add: bs_def)
  have ceil: "int (length bs) = \<lceil>real n / real b\<rceil>"
    using ceil_div_nat [OF bpos, of n] len by simp
  have cc: "concat bs = xs"
    using range_step_concat [OF bpos, of xs 0] by (simp add: bs_def n_def)
  have nth: "bs ! j = take b (drop (j * b) xs)" if "j < length bs" for j
    using that range_step_nth [OF bpos, of j 0 n] by (simp add: bs_def slice_def)
  have full: "length (bs ! j) = b" if "Suc j < length bs" for j
  proof -
    from that have "range_step 0 n b ! Suc j \<in> set (range_step 0 n b)"
      by (simp add: bs_def)
    then have "range_step 0 n b ! Suc j < n" by (rule range_step_bound)
    moreover have "range_step 0 n b ! Suc j = Suc j * b"
      using that range_step_nth [OF bpos, of "Suc j" 0 n] by (simp add: bs_def)
    ultimately have "j * b + b < n" by simp
    moreover have "j < length bs" using that by simp
    ultimately show ?thesis using nth [of j] by (simp add: n_def)
  qed
  have lst: "length (last bs) = (if n mod b = 0 then b else n mod b)" if "bs \<noteq> []"
  proof -
    from that have lpos: "0 < length bs" by simp
    then have npos: "0 < n" using len bpos by (cases n) simp_all
    have "last bs = bs ! (length bs - 1)" using that by (simp add: last_conv_nth)
    also have "\<dots> = take b (drop ((length bs - 1) * b) xs)" using lpos by (intro nth) simp
    finally have "length (last bs) = min b (n - ((n + b - 1) div b - 1) * b)"
      by (simp add: len n_def min.commute)
    then show ?thesis using last_chunk_size [OF bpos npos] by simp
  qed
  show ?thesis
    using ch ceil cc nth full lst unfolding B b_def [symmetric] n_def [symmetric] by blast
qed

theorem chunks_batches_witness:
  "(1::int) \<le> 3 \<and> chunks ''abcdefg'' 3 = Inr [''abc'', ''def'', ''g'']"
proof -
  have h: "(1::int) \<le> 3" by simp
  have e: "chunks ''abcdefg'' 3 = Inr [''abc'', ''def'', ''g'']"
    by (simp add: chunks_def range_step.simps slice_def)
  from chunks_batches [OF h, of "''abcdefg''"] e show ?thesis by simp
qed


section \<open>Running the batches\<close>










section \<open>The merge, file by file\<close>

lemma dict_entries_Nil [simp]: "dict_entries [] = []"
  by (simp add: dict_entries_def)

lemma dict_entries_append: "dict_entries (xs @ ys) = dict_entries xs @ dict_entries ys"
  by (simp add: dict_entries_def)

lemma first_seen_append:
  "first_seen k S (xs @ ys) = first_seen k S xs @ first_seen k (S \<union> k ` set xs) ys"
proof (induction xs arbitrary: S)
  case Nil
  show ?case by simp
next
  case (Cons x xs)
  have "insert (k x) S \<union> k ` set xs = S \<union> insert (k x) (k ` set xs)" by blast
  moreover have "k x \<in> S \<Longrightarrow> S \<union> insert (k x) (k ` set xs) = S \<union> k ` set xs" by blast
  ultimately show ?case using Cons.IH by simp
qed

lemma first_seen_all_seen: "k ` set xs \<subseteq> S \<Longrightarrow> first_seen k S xs = []"
  by (induction xs) simp_all

lemma set_first_seen_subset: "set (first_seen k S xs) \<subseteq> set xs"
  by (induction xs arbitrary: S) auto

lemma keys_first_seen: "k ` set (first_seen k S xs) = k ` set xs - S"
  by (induction xs arbitrary: S) auto

lemma distinct_keys_first_seen: "distinct (map k (first_seen k S xs))"
proof (induction xs arbitrary: S)
  case Nil
  show ?case by simp
next
  case (Cons x xs)
  have "k x \<notin> k ` set (first_seen k (insert (k x) S) xs)"
    unfolding keys_first_seen by simp
  with Cons.IH show ?case by simp
qed

text \<open>What one entry, and the entries of one file, do to the state.\<close>

lemma items_at_update:
  "items_at (AList.update t v al) u = (if u = t then v else items_at al u)"
  by (simp add: items_at_def update_conv')

lemma add_entry_keys:
  "map_of (taxonomy_to_items st) t \<noteq> None \<Longrightarrow>
   map fst (taxonomy_to_items (add_entry R t x st)) = map fst (taxonomy_to_items st)"
  by (cases x) (auto simp: add_entry_def Let_def update_keys map_of_eq_None_iff)

lemma add_entry_present:
  assumes "map_of (taxonomy_to_items st) t \<noteq> None"
  shows "map_of (taxonomy_to_items (add_entry R t x st)) t \<noteq> None"
proof -
  have "fst ` set (taxonomy_to_items (add_entry R t x st))
          = set (map fst (taxonomy_to_items (add_entry R t x st)))" by simp
  also have "\<dots> = set (map fst (taxonomy_to_items st))"
    by (simp only: add_entry_keys [OF assms])
  also have "\<dots> = fst ` set (taxonomy_to_items st)" by simp
  finally show ?thesis using assms by (simp only: map_of_eq_None_iff) simp
qed

lemma add_entry_items:
  "items_at (taxonomy_to_items (add_entry R t x st)) u =
     (if u = t
      then items_at (taxonomy_to_items st) t @
             first_seen (entry_key R) (taxonomy_to_seen st t) (dict_entries [x])
      else items_at (taxonomy_to_items st) u)"
  by (cases x) (simp_all add: add_entry_def Let_def items_at_update dict_entries_def)

lemma add_entry_seen:
  "taxonomy_to_seen (add_entry R t x st) u =
     (if u = t then taxonomy_to_seen st t \<union> entry_key R ` set (dict_entries [x])
      else taxonomy_to_seen st u)"
  by (cases x) (auto simp: add_entry_def Let_def dict_entries_def)

lemma fold_add_entry:
  "map_of (taxonomy_to_items st) t \<noteq> None \<Longrightarrow>
   map fst (taxonomy_to_items (fold (add_entry R t) xs st)) = map fst (taxonomy_to_items st)
   \<and> (\<forall>u. items_at (taxonomy_to_items (fold (add_entry R t) xs st)) u =
           (if u = t
            then items_at (taxonomy_to_items st) t @
                   first_seen (entry_key R) (taxonomy_to_seen st t) (dict_entries xs)
            else items_at (taxonomy_to_items st) u))
   \<and> (\<forall>u. taxonomy_to_seen (fold (add_entry R t) xs st) u =
           (if u = t then taxonomy_to_seen st t \<union> entry_key R ` set (dict_entries xs)
            else taxonomy_to_seen st u))"
proof (induction xs arbitrary: st)
  case Nil
  show ?case by (simp add: dict_entries_def)
next
  case (Cons x xs)
  let ?st = "add_entry R t x st"
  have p: "map_of (taxonomy_to_items ?st) t \<noteq> None"
    by (rule add_entry_present [OF Cons.prems])
  have d: "dict_entries (x # xs) = dict_entries [x] @ dict_entries xs"
    by (simp add: dict_entries_def)
  from Cons.IH [OF p] show ?case
    by (simp add: add_entry_keys [OF Cons.prems] add_entry_items add_entry_seen d
          first_seen_append Un_assoc image_Un)
qed

text \<open>What one file does to the state.\<close>

lemma entries_named_snoc:
  "entries_named (ds @ [d]) u =
     entries_named ds u @ (if taxonomy_name_of d = u then classifications_of d else [])"
  by (simp add: entries_named_def)

lemma entries_named_absent:
  "u \<notin> set (map taxonomy_name_of ds) \<Longrightarrow> entries_named ds u = []"
  by (induction ds) (auto simp: entries_named_def)

lemma add_file_observed:
  fixes R d st
  defines "t \<equiv> taxonomy_name_of d"
  defines "present \<equiv> map_of (taxonomy_to_items st) t \<noteq> None"
  defines "sn \<equiv> (if present then taxonomy_to_seen st t else {})"
  defines "its \<equiv> (if present then items_at (taxonomy_to_items st) t else [])"
  shows "map fst (taxonomy_to_items (add_file R d st)) =
           (if present then map fst (taxonomy_to_items st)
            else map fst (taxonomy_to_items st) @ [t])
   \<and> (\<forall>u. items_at (taxonomy_to_items (add_file R d st)) u =
           (if u = t
            then its @ first_seen (entry_key R) sn (dict_entries (classifications_of d))
            else items_at (taxonomy_to_items st) u))
   \<and> (\<forall>u. taxonomy_to_seen (add_file R d st) u =
           (if u = t then sn \<union> entry_key R ` set (dict_entries (classifications_of d))
            else taxonomy_to_seen st u))"
proof (cases present)
  case True
  then have p: "map_of (taxonomy_to_items st) t \<noteq> None" by (simp add: present_def)
  have "add_file R d st = fold (add_entry R t) (classifications_of d) st"
    using p by (auto simp: add_file_def Let_def t_def)
  with fold_add_entry [OF p, of R "classifications_of d"] True show ?thesis
    by (simp add: sn_def its_def)
next
  case False
  define st1 where "st1 = st\<lparr>taxonomy_to_items := taxonomy_to_items st @ [(t, [])],
                                taxonomy_to_seen := (taxonomy_to_seen st)(t := {})\<rparr>"
  from False have n: "map_of (taxonomy_to_items st) t = None" by (simp add: present_def)
  have p1: "map_of (taxonomy_to_items st1) t \<noteq> None"
    by (simp add: st1_def)
  have a: "add_file R d st = fold (add_entry R t) (classifications_of d) st1"
    unfolding add_file_def Let_def st1_def t_def using n [unfolded t_def] by simp
  have i1: "items_at (taxonomy_to_items st1) u = items_at (taxonomy_to_items st) u" for u
    using n by (simp add: st1_def items_at_def map_add_def split: option.splits)
  have e: "items_at (taxonomy_to_items st) t = []"
    using n by (simp add: items_at_def)
  from fold_add_entry [OF p1, of R "classifications_of d"] False show ?thesis
    unfolding a by (simp add: sn_def its_def i1 e) (simp add: st1_def)
qed

lemma fold_add_file:
  "distinct (map fst (taxonomy_to_items
       (fold (add_file R) ds \<lparr>taxonomy_to_items = [], taxonomy_to_seen = (\<lambda>t. {})\<rparr>)))
   \<and> set (map fst (taxonomy_to_items
       (fold (add_file R) ds \<lparr>taxonomy_to_items = [], taxonomy_to_seen = (\<lambda>t. {})\<rparr>)))
       = set (map taxonomy_name_of ds)
   \<and> (\<forall>u. items_at (taxonomy_to_items
              (fold (add_file R) ds \<lparr>taxonomy_to_items = [], taxonomy_to_seen = (\<lambda>t. {})\<rparr>)) u
            = first_seen (entry_key R) {} (dict_entries (entries_named ds u)))
   \<and> (\<forall>u. taxonomy_to_seen
              (fold (add_file R) ds \<lparr>taxonomy_to_items = [], taxonomy_to_seen = (\<lambda>t. {})\<rparr>) u
            = entry_key R ` set (dict_entries (entries_named ds u)))"
proof (induction ds rule: rev_induct)
  case Nil
  show ?case by (simp add: items_at_def entries_named_def dict_entries_def)
next
  case (snoc d ds)
  define st where
    "st = fold (add_file R) ds \<lparr>taxonomy_to_items = [], taxonomy_to_seen = (\<lambda>t. {})\<rparr>"
  define t where "t = taxonomy_name_of d"
  define A where "A = dict_entries (entries_named ds t)"
  define B where "B = dict_entries (classifications_of d)"
  from snoc.IH have dk: "distinct (map fst (taxonomy_to_items st))"
    and ks: "set (map fst (taxonomy_to_items st)) = set (map taxonomy_name_of ds)"
    and it: "\<And>u. items_at (taxonomy_to_items st) u
                  = first_seen (entry_key R) {} (dict_entries (entries_named ds u))"
    and sn: "\<And>u. taxonomy_to_seen st u = entry_key R ` set (dict_entries (entries_named ds u))"
    unfolding st_def by blast+
  have pres: "(map_of (taxonomy_to_items st) t \<noteq> None) = (t \<in> set (map taxonomy_name_of ds))"
    unfolding ks [symmetric] by (simp add: map_of_eq_None_iff)
  have A0: "A = []" if "t \<notin> set (map taxonomy_name_of ds)"
    using that by (simp add: A_def entries_named_absent dict_entries_def)
  have its: "(if map_of (taxonomy_to_items st) t \<noteq> None then items_at (taxonomy_to_items st) t else [])
               = first_seen (entry_key R) {} A"
    unfolding pres using A0 by (simp add: it A_def)
  have seen: "(if map_of (taxonomy_to_items st) t \<noteq> None then taxonomy_to_seen st t else {})
               = entry_key R ` set A"
    unfolding pres using A0 by (simp add: sn A_def)
  have step: "fold (add_file R) (ds @ [d]) \<lparr>taxonomy_to_items = [], taxonomy_to_seen = (\<lambda>t. {})\<rparr>
                = add_file R d st"
    by (simp add: st_def)
  have en: "dict_entries (entries_named (ds @ [d]) u)
              = (if u = t then A @ B else dict_entries (entries_named ds u))" for u
    by (simp add: entries_named_snoc dict_entries_append A_def B_def t_def)
  have obs: "map fst (taxonomy_to_items (add_file R d st)) =
           (if map_of (taxonomy_to_items st) t \<noteq> None then map fst (taxonomy_to_items st)
            else map fst (taxonomy_to_items st) @ [t])"
    and obi: "\<And>u. items_at (taxonomy_to_items (add_file R d st)) u =
           (if u = t then first_seen (entry_key R) {} A @ first_seen (entry_key R) (entry_key R ` set A) B
            else items_at (taxonomy_to_items st) u)"
    and obn: "\<And>u. taxonomy_to_seen (add_file R d st) u =
           (if u = t then entry_key R ` set A \<union> entry_key R ` set B
            else taxonomy_to_seen st u)"
    using add_file_observed [of R d st] unfolding t_def [symmetric] B_def [symmetric] its seen
    by blast+
  have k1: "distinct (map fst (taxonomy_to_items (add_file R d st)))"
    unfolding obs using dk pres ks by auto
  have k2: "set (map fst (taxonomy_to_items (add_file R d st))) = set (map taxonomy_name_of (ds @ [d]))"
    unfolding obs using pres ks by (auto simp: t_def)
  have k3: "items_at (taxonomy_to_items (add_file R d st)) u
              = first_seen (entry_key R) {} (dict_entries (entries_named (ds @ [d]) u))" for u
    unfolding en obi by (simp add: first_seen_append it)
  have k4: "taxonomy_to_seen (add_file R d st) u
              = entry_key R ` set (dict_entries (entries_named (ds @ [d]) u))" for u
    unfolding en obn by (simp add: image_Un sn)
  show ?case unfolding step using k1 k2 k3 k4 by blast
qed

text \<open>The loop over the files: it skips, raises, or adds the file.\<close>

lemma merge_files_all_added:
  "ign \<or> (\<forall>p\<in>set files. file_ok load_json p) \<Longrightarrow>
   merge_files R load_json ign files st =
     Inr (fold (add_file R) (valid_payloads load_json files) st)"
proof (induction files arbitrary: st)
  case Nil
  show ?case by (simp add: valid_payloads_def)
next
  case (Cons p files)
  from Cons.prems have r: "ign \<or> (\<forall>p\<in>set files. file_ok load_json p)" by auto
  from Cons.prems have ok: "ign \<or> file_ok load_json p" by auto
  show ?case
  proof (cases "load_json p")
    case (Inl e)
    with ok have ign by (simp add: file_ok_def)
    with Inl Cons.IH [OF r] show ?thesis by (simp add: valid_payloads_def)
  next
    case (Inr data)
    show ?thesis
    proof (cases "is_taxonomy_file data")
      case True
      with Inr Cons.IH [OF r] show ?thesis by (simp add: valid_payloads_def)
    next
      case False
      with Inr ok have ign by (simp add: file_ok_def)
      with Inr False Cons.IH [OF r] show ?thesis by (simp add: valid_payloads_def)
    qed
  qed
qed

lemma merge_files_raises:
  "find (\<lambda>p. \<not> file_ok load_json p) files = Some bad \<Longrightarrow>
   merge_files R load_json False files st = Inl (file_error load_json bad)"
proof (induction files arbitrary: st)
  case Nil
  then show ?case by simp
next
  case (Cons p files)
  show ?case
  proof (cases "file_ok load_json p")
    case True
    with Cons.prems have f: "find (\<lambda>p. \<not> file_ok load_json p) files = Some bad" by simp
    from True show ?thesis
      using Cons.IH [OF f]
      by (auto simp: file_ok_def split: sum.splits)
  next
    case False
    with Cons.prems have "bad = p" by simp
    with False show ?thesis
      by (auto simp: file_ok_def file_error_def split: sum.splits)
  qed
qed

text \<open>From the final state to the value returned.\<close>

lemma merge_refines:
  assumes "ign \<or> (\<forall>p\<in>set files. file_ok load_json p)"
  shows "merge_taxonomies R load_json files ign = merged_result R (valid_payloads load_json files)"
proof -
  define ds where "ds = valid_payloads load_json files"
  define st where
    "st = fold (add_file R) ds \<lparr>taxonomy_to_items = [], taxonomy_to_seen = (\<lambda>t. {})\<rparr>"
  define L where "L = map fst (taxonomy_to_items st)"
  define N where "N = sort (remdups (map taxonomy_name_of ds))"
  define agg where
    "agg = (\<lambda>ns. JDict [(''taxonomies'',
                     JList (map (\<lambda>t. taxonomy_payload t (merged_entries R ds t)) ns))])"
  have mf: "merge_files R load_json ign files \<lparr>taxonomy_to_items = [], taxonomy_to_seen = (\<lambda>t. {})\<rparr>
              = Inr st"
    unfolding st_def ds_def by (rule merge_files_all_added [OF assms])
  from fold_add_file [of R ds]
  have dk: "distinct L"
    and ks: "set L = set (map taxonomy_name_of ds)"
    and it: "\<And>u. items_at (taxonomy_to_items st) u
                  = first_seen (entry_key R) {} (dict_entries (entries_named ds u))"
    unfolding st_def L_def by blast+
  have se: "sort_key (sort_key_of R) (items_at (taxonomy_to_items st) u) = merged_entries R ds u" for u
    by (simp add: it merged_entries_def)
  have eN: "sort L = N"
    unfolding N_def by (rule sorted_distinct_set_unique) (use dk ks in simp_all)
  have lhs: "merge_taxonomies R load_json files ign =
       (case L of
          [] \<Rightarrow> Inl (RuntimeError ''No valid taxonomy files found to merge.'')
        | [t] \<Rightarrow> Inr (taxonomy_payload t (merged_entries R ds t))
        | x # y # zs \<Rightarrow> Inr (agg (sort L)))"
    unfolding merge_taxonomies_def mf L_def [symmetric] agg_def
    by (simp add: se Let_def L_def split: list.splits)
  have rhs: "merged_result R ds =
       (case N of
          [] \<Rightarrow> Inl (RuntimeError ''No valid taxonomy files found to merge.'')
        | [t] \<Rightarrow> Inr (taxonomy_payload t (merged_entries R ds t))
        | x # y # zs \<Rightarrow> Inr (agg N))"
    unfolding merged_result_def N_def [symmetric] agg_def
    by (simp split: list.splits)
  have "(case L of
          [] \<Rightarrow> Inl (RuntimeError ''No valid taxonomy files found to merge.'')
        | [t] \<Rightarrow> Inr (taxonomy_payload t (merged_entries R ds t))
        | x # y # zs \<Rightarrow> Inr (agg (sort L)))
      = (case N of
          [] \<Rightarrow> Inl (RuntimeError ''No valid taxonomy files found to merge.'')
        | [t] \<Rightarrow> Inr (taxonomy_payload t (merged_entries R ds t))
        | x # y # zs \<Rightarrow> Inr (agg N))"
  proof (cases L)
    case Nil
    with eN have "N = []" by simp
    with Nil show ?thesis by simp
  next
    case (Cons x L')
    show ?thesis
    proof (cases L')
      case Nil
      with Cons eN have "N = [x]" by simp
      with Nil Cons show ?thesis by simp
    next
      case (Cons y zs)
      with \<open>L = x # L'\<close> have l: "L = x # y # zs" by simp
      have "length N = length L" unfolding eN [symmetric] by simp
      with l have "length N = Suc (Suc (length zs))" by simp
      then obtain x' y' zs' where n: "N = x' # y' # zs'"
        by (metis length_Suc_conv)
      have "(case L of
          [] \<Rightarrow> Inl (RuntimeError ''No valid taxonomy files found to merge.'')
        | [t] \<Rightarrow> Inr (taxonomy_payload t (merged_entries R ds t))
        | x # y # zs \<Rightarrow> Inr (agg (sort L))) = Inr (agg (sort L))"
        unfolding l by (simp only: list.case)
      moreover have "(case N of
          [] \<Rightarrow> Inl (RuntimeError ''No valid taxonomy files found to merge.'')
        | [t] \<Rightarrow> Inr (taxonomy_payload t (merged_entries R ds t))
        | x # y # zs \<Rightarrow> Inr (agg N)) = Inr (agg N)"
        unfolding n by (simp only: list.case)
      ultimately show ?thesis by (simp only: eN)
    qed
  qed
  then show ?thesis unfolding lhs rhs ds_def [symmetric] .
qed

lemma merge_raises:
  assumes "find (\<lambda>p. \<not> file_ok load_json p) files = Some bad"
  shows "merge_taxonomies R load_json files False = Inl (file_error load_json bad)"
  by (simp add: merge_taxonomies_def merge_files_raises [OF assms])

text \<open>The files that count, and the entries that are kept.\<close>

lemma valid_payloads_Nil_iff:
  "valid_payloads load_json files = [] \<longleftrightarrow> (\<forall>p\<in>set files. \<not> file_ok load_json p)"
  by (induction files) (auto simp: valid_payloads_def file_ok_def split: sum.splits)

lemma valid_payloads_filter:
  "valid_payloads load_json (filter (file_ok load_json) files) = valid_payloads load_json files"
  by (induction files) (auto simp: valid_payloads_def file_ok_def split: sum.splits)

lemma merged_result_error_iff:
  "merged_result R ds = Inl e \<longleftrightarrow>
     ds = [] \<and> e = RuntimeError ''No valid taxonomy files found to merge.''"
proof (cases ds)
  case Nil
  then show ?thesis by (auto simp: merged_result_def)
next
  case (Cons d ds')
  then have "sort (remdups (map taxonomy_name_of ds)) \<noteq> []"
    by (metis list.simps(3) map_is_Nil_conv remdups_eq_nil_iff set_empty2 set_sort)
  with Cons show ?thesis
    by (auto simp: merged_result_def split: list.splits)
qed



lemmas merge_eval =
  merged_result_def merged_entries_def entries_named_def dict_entries_def valid_payloads_def
  taxonomy_name_of_def classifications_of_def is_taxonomy_file_def file_ok_def file_error_def
  entry_key_def sort_key_of_def dict_get_def py_str_def py_lower_def char_lower_def
  taxonomy_payload_def


section \<open>Invalid files\<close>

text \<open>
  C7, as amended. A file is invalid when loading it raises or its content fails the
  shape check. With the ignore flag set, invalid files are skipped: the result is the
  one of merging the valid files alone. With the flag unset, the merge raises at the
  first invalid file the error of that file (the exception of the load, or a
  \<^verbatim>\<open>ValueError\<close> naming the path), which is never the \<^verbatim>\<open>RuntimeError\<close> below. The
  merge raises the \<^verbatim>\<open>RuntimeError\<close> "No valid taxonomy files found to merge." exactly
  when no input file is valid and either the flag is set or there is no input file.
\<close>

theorem merge_error_policy:
  "merge_taxonomies R load_json files True
     = merge_taxonomies R load_json (filter (file_ok load_json) files) False
   \<and> (\<forall>bad. find (\<lambda>p. \<not> file_ok load_json p) files = Some bad \<longrightarrow>
         merge_taxonomies R load_json files False = Inl (file_error load_json bad)
         \<and> file_error load_json bad \<noteq> RuntimeError ''No valid taxonomy files found to merge.'')
   \<and> (merge_taxonomies R load_json files ign
         = Inl (RuntimeError ''No valid taxonomy files found to merge.'')
       \<longleftrightarrow> (\<forall>p\<in>set files. \<not> file_ok load_json p) \<and> (ign \<or> files = []))"
proof -
  have skip: "merge_taxonomies R load_json files True
     = merge_taxonomies R load_json (filter (file_ok load_json) files) False"
    using merge_refines [of True files load_json R]
          merge_refines [of False "filter (file_ok load_json) files" load_json R]
    by (simp add: valid_payloads_filter)
  have fe: "file_error load_json bad \<noteq> RuntimeError ''No valid taxonomy files found to merge.''"
    for bad by (simp add: file_error_def split: sum.splits)
  have raise: "merge_taxonomies R load_json files False = Inl (file_error load_json bad)"
    if "find (\<lambda>p. \<not> file_ok load_json p) files = Some bad" for bad
    using that by (rule merge_raises)
  have iff: "merge_taxonomies R load_json files ign
         = Inl (RuntimeError ''No valid taxonomy files found to merge.'')
       \<longleftrightarrow> (\<forall>p\<in>set files. \<not> file_ok load_json p) \<and> (ign \<or> files = [])"
  proof (cases "ign \<or> (\<forall>p\<in>set files. file_ok load_json p)")
    case True
    then have "merge_taxonomies R load_json files ign = merged_result R (valid_payloads load_json files)"
      by (rule merge_refines)
    then have "merge_taxonomies R load_json files ign
         = Inl (RuntimeError ''No valid taxonomy files found to merge.'')
       \<longleftrightarrow> (\<forall>p\<in>set files. \<not> file_ok load_json p)"
      by (simp add: merged_result_error_iff valid_payloads_Nil_iff)
    with True show ?thesis by (cases files) auto
  next
    case False
    then have ign: "\<not> ign" and ex: "\<exists>p\<in>set files. \<not> file_ok load_json p" by auto
    from ex obtain bad where "find (\<lambda>p. \<not> file_ok load_json p) files = Some bad"
      by (cases "find (\<lambda>p. \<not> file_ok load_json p) files") (auto simp: find_None_iff)
    from raise [OF this] fe [of bad] ign ex show ?thesis by auto
  qed
  show ?thesis using skip raise fe iff by blast
qed

theorem merge_error_policy_witness:
  "file_ok (\<lambda>p. if p = ''a.json''
                 then Inr (JDict [(''taxonomy_name'', JStr ''T''), (''classifications'', JList [])])
                 else Inr (JList [])) ''a.json''
   \<and> \<not> file_ok (\<lambda>p. if p = ''a.json''
                 then Inr (JDict [(''taxonomy_name'', JStr ''T''), (''classifications'', JList [])])
                 else Inr (JList [])) ''c.json''
   \<and> merge_taxonomies (\<lambda>v. [])
        (\<lambda>p. if p = ''a.json''
              then Inr (JDict [(''taxonomy_name'', JStr ''T''), (''classifications'', JList [])])
              else Inr (JList []))
        [''a.json'', ''c.json''] True
     = merge_taxonomies (\<lambda>v. [])
        (\<lambda>p. if p = ''a.json''
              then Inr (JDict [(''taxonomy_name'', JStr ''T''), (''classifications'', JList [])])
              else Inr (JList []))
        [''a.json''] False
   \<and> merge_taxonomies (\<lambda>v. [])
        (\<lambda>p. if p = ''a.json''
              then Inr (JDict [(''taxonomy_name'', JStr ''T''), (''classifications'', JList [])])
              else Inr (JList []))
        [''a.json'', ''c.json''] False
     = Inl (ValueError ''Invalid taxonomy file format: c.json'')
   \<and> merge_taxonomies (\<lambda>v. [])
        (\<lambda>p. if p = ''a.json''
              then Inr (JDict [(''taxonomy_name'', JStr ''T''), (''classifications'', JList [])])
              else Inr (JList []))
        [''c.json''] True
     = Inl (RuntimeError ''No valid taxonomy files found to merge.'')"
proof -
  let ?ld = "\<lambda>p. if p = ''a.json''
              then Inr (JDict [(''taxonomy_name'', JStr ''T''), (''classifications'', JList [])])
              else (Inr (JList []) :: string + json)"
  have a: "file_ok ?ld ''a.json''" and c: "\<not> file_ok ?ld ''c.json''"
    by (simp_all add: merge_eval)
  have f: "filter (file_ok ?ld) [''a.json'', ''c.json''] = [''a.json'']"
    using a c by simp
  have b: "find (\<lambda>p. \<not> file_ok ?ld p) [''a.json'', ''c.json''] = Some ''c.json''"
    using a c by simp
  have e: "file_error ?ld ''c.json'' = ValueError ''Invalid taxonomy file format: c.json''"
    by (simp add: file_error_def)
  note P = merge_error_policy [where R = "\<lambda>v. []" and load_json = ?ld
         and files = "[''a.json'', ''c.json'']" and ign = True]
  have 1: "merge_taxonomies (\<lambda>v. []) ?ld [''a.json'', ''c.json''] True
             = merge_taxonomies (\<lambda>v. []) ?ld [''a.json''] False"
    using P [THEN conjunct1] unfolding f .
  have 2: "merge_taxonomies (\<lambda>v. []) ?ld [''a.json'', ''c.json''] False
             = Inl (ValueError ''Invalid taxonomy file format: c.json'')"
    using P [THEN conjunct2, THEN conjunct1, rule_format, OF b, THEN conjunct1]
    unfolding e .
  note Q = merge_error_policy [where R = "\<lambda>v. []" and load_json = ?ld
         and files = "[''c.json'']" and ign = True, THEN conjunct2, THEN conjunct2]
  have 3: "merge_taxonomies (\<lambda>v. []) ?ld [''c.json''] True
             = Inl (RuntimeError ''No valid taxonomy files found to merge.'')"
    unfolding Q using c by simp
  from a c 1 2 3 show ?thesis by (simp only: simp_thms)
qed

text \<open>
  The claim as written has the merge raise a \<^verbatim>\<open>RuntimeError\<close> exactly when no input
  file validated. Here the only input file fails to load and the flag is unset: no file
  validated, and what is raised is the exception of the load.
\<close>

theorem merge_error_policy_not_runtime_error:
  "\<not> file_ok (\<lambda>p. Inl ''Expecting value'') ''broken.json''
   \<and> merge_taxonomies (\<lambda>v. []) (\<lambda>p. Inl ''Expecting value'') [''broken.json''] False
       = Inl (External ''Expecting value'')
   \<and> External ''Expecting value'' \<noteq> RuntimeError ''No valid taxonomy files found to merge.''"
  by (simp add: merge_taxonomies_def file_ok_def)


section \<open>Entries that are not objects\<close>

text \<open>
  C10. For input files that all load and pass the shape check (at least one of them),
  whatever the ignore flag, the merge returns a result and raises nothing. The entries
  it keeps for a taxonomy name are, sorted, the first entry for each key among the
  elements that are objects, taken in input order from the files of that name: every
  kept entry is such an object, unchanged; every such object has its key among the kept
  entries; no two kept entries share a key; an element that is not an object is not
  among them. A field missing from an entry counts as the empty string in its key.
\<close>

theorem merge_entries_kept:
  fixes load_json files R
  defines "ds \<equiv> valid_payloads load_json files"
  assumes "files \<noteq> []" and "\<forall>p\<in>set files. file_ok load_json p"
  shows "merge_taxonomies R load_json files ign = merged_result R ds
         \<and> (\<exists>v. merge_taxonomies R load_json files ign = Inr v)
         \<and> (\<forall>t. merged_entries R ds t =
                  sort_key (sort_key_of R)
                    (first_seen (entry_key R) {} (dict_entries (entries_named ds t))))
         \<and> (\<forall>xs. set (dict_entries xs) = {d. JDict d \<in> set xs})
         \<and> (\<forall>t. set (merged_entries R ds t) \<subseteq> {d. JDict d \<in> set (entries_named ds t)})
         \<and> (\<forall>t. entry_key R ` set (merged_entries R ds t)
                  = entry_key R ` {d. JDict d \<in> set (entries_named ds t)})
         \<and> (\<forall>t. distinct (map (entry_key R) (merged_entries R ds t)))
         \<and> entry_key R [] = ([], [], [], [])"
proof -
  have de: "set (dict_entries xs) = {d. JDict d \<in> set xs}" for xs
    by (induction xs) (auto simp: dict_entries_def split: json.splits)
  from assms(2,3) have "ds \<noteq> []"
    unfolding ds_def by (cases files) (auto simp: valid_payloads_Nil_iff)
  have r: "merge_taxonomies R load_json files ign = merged_result R ds"
    unfolding ds_def using merge_refines [of ign files load_json R] assms(3) by blast
  have v: "\<exists>v. merged_result R ds = Inr v"
    using \<open>ds \<noteq> []\<close> merged_result_error_iff [of R ds] by (cases "merged_result R ds") auto
  have s: "set (merged_entries R ds t) \<subseteq> {d. JDict d \<in> set (entries_named ds t)}" for t
    unfolding merged_entries_def de [symmetric] using set_first_seen_subset by simp
  have k: "entry_key R ` set (merged_entries R ds t)
             = entry_key R ` {d. JDict d \<in> set (entries_named ds t)}" for t
    unfolding merged_entries_def de [symmetric] by (simp add: keys_first_seen)
  have d: "distinct (map (entry_key R) (merged_entries R ds t))" for t
  proof -
    have "mset (map (entry_key R) (merged_entries R ds t))
            = mset (map (entry_key R)
                (first_seen (entry_key R) {} (dict_entries (entries_named ds t))))"
      unfolding merged_entries_def by simp
    then show ?thesis
      using distinct_keys_first_seen [of "entry_key R" "{}"] by (metis mset_eq_imp_distinct_iff)
  qed
  have e: "entry_key R [] = ([], [], [], [])"
    by (simp add: entry_key_def dict_get_def py_str_def)
  show ?thesis
    unfolding r using v de s k d e by (simp add: merged_entries_def)
qed

theorem merge_entries_kept_witness:
  "file_ok (\<lambda>p. Inr (JDict [(''taxonomy_name'', JStr ''T''),
              (''classifications'',
               JList [JDict [(''issue'', JStr ''slow''), (''node_id'', JStr ''n1'')],
                      JInt 3,
                      JDict [(''node_id'', JStr ''n1''), (''issue'', JStr ''slow''), (''note'', JStr ''again'')],
                      JDict []])]))
      ''a.json''
   \<and> merge_taxonomies (\<lambda>v. [])
        (\<lambda>p. Inr (JDict [(''taxonomy_name'', JStr ''T''),
              (''classifications'',
               JList [JDict [(''issue'', JStr ''slow''), (''node_id'', JStr ''n1'')],
                      JInt 3,
                      JDict [(''node_id'', JStr ''n1''), (''issue'', JStr ''slow''), (''note'', JStr ''again'')],
                      JDict []])]))
        [''a.json''] False
     = Inr (JDict [(''taxonomy_name'', JStr ''T''),
              (''classifications'',
               JList [JDict [], JDict [(''issue'', JStr ''slow''), (''node_id'', JStr ''n1'')]])])"
proof -
  let ?ld = "\<lambda>p::string. (Inr (JDict [(''taxonomy_name'', JStr ''T''),
              (''classifications'',
               JList [JDict [(''issue'', JStr ''slow''), (''node_id'', JStr ''n1'')],
                      JInt 3,
                      JDict [(''node_id'', JStr ''n1''), (''issue'', JStr ''slow''), (''note'', JStr ''again'')],
                      JDict []])]) :: string + json)"
  have ok: "file_ok ?ld p" for p
    by (simp add: file_ok_def is_taxonomy_file_def dict_get_def)
  have ne: "[''a.json''] \<noteq> []" by simp
  have all: "\<forall>p\<in>set [''a.json'']. file_ok ?ld p" using ok by blast
  have 1: "merge_taxonomies (\<lambda>v. []) ?ld [''a.json''] False
     = Inr (JDict [(''taxonomy_name'', JStr ''T''),
              (''classifications'',
               JList [JDict [], JDict [(''issue'', JStr ''slow''), (''node_id'', JStr ''n1'')]])])"
    unfolding merge_entries_kept [OF ne all, where R = "\<lambda>v. []" and ign = False, THEN conjunct1]
    by (simp add: merge_eval)
  from ok [of "''a.json''"] 1 show ?thesis by (simp only: simp_thms)
qed


section \<open>Merging a file twice\<close>

text \<open>
  C3. Merging a valid taxonomy file together with a second copy of it (the same path
  again, or another path with the same content) returns what merging it alone returns:
  the same taxonomy name with the same list of classification entries, every entry of
  the second copy being dropped by its key (node_id, issue, level1, level2).
\<close>

theorem merge_idempotent:
  assumes "file_ok load_json p" and "file_ok load_json q" and "load_json p = load_json q"
  shows "merge_taxonomies R load_json [p, q] ign = merge_taxonomies R load_json [p] ign"
proof -
  from assms(1) obtain d where d: "load_json p = Inr d" "is_taxonomy_file d"
    by (auto simp: file_ok_def split: sum.splits)
  from assms(3) d have dq: "load_json q = Inr d" by simp
  have v2: "valid_payloads load_json [p, q] = [d, d]"
    and v1: "valid_payloads load_json [p] = [d]"
    by (simp_all add: valid_payloads_def d dq)
  have e: "merged_entries R [d, d] t = merged_entries R [d] t" for t
  proof -
    define A where "A = dict_entries (entries_named [d] t)"
    have "dict_entries (entries_named [d, d] t) = A @ A"
      by (simp add: A_def entries_named_def dict_entries_append)
    moreover have "first_seen (entry_key R) {} (A @ A) = first_seen (entry_key R) {} A"
      by (simp add: first_seen_append first_seen_all_seen)
    ultimately show ?thesis by (simp add: merged_entries_def A_def)
  qed
  have "merged_result R [d, d] = merged_result R [d]"
    by (simp add: merged_result_def e)
  moreover have "merge_taxonomies R load_json [p, q] ign = merged_result R [d, d]"
    using merge_refines [of ign "[p, q]" load_json R] assms(1,2) by (simp add: v2)
  moreover have "merge_taxonomies R load_json [p] ign = merged_result R [d]"
    using merge_refines [of ign "[p]" load_json R] assms(1) by (simp add: v1)
  ultimately show ?thesis by simp
qed

theorem merge_idempotent_witness:
  "file_ok (\<lambda>p. Inr (JDict [(''taxonomy_name'', JStr ''T''),
                (''classifications'', JList [JDict [(''issue'', JStr ''slow''), (''node_id'', JStr ''n1'')], JInt 3])]))
      ''a.json''
   \<and> merge_taxonomies (\<lambda>v. [])
        (\<lambda>p. Inr (JDict [(''taxonomy_name'', JStr ''T''),
                (''classifications'', JList [JDict [(''issue'', JStr ''slow''), (''node_id'', JStr ''n1'')], JInt 3])]))
        [''a.json'', ''b.json''] False
     = merge_taxonomies (\<lambda>v. [])
        (\<lambda>p. Inr (JDict [(''taxonomy_name'', JStr ''T''),
                (''classifications'', JList [JDict [(''issue'', JStr ''slow''), (''node_id'', JStr ''n1'')], JInt 3])]))
        [''a.json''] False
   \<and> merge_taxonomies (\<lambda>v. [])
        (\<lambda>p. Inr (JDict [(''taxonomy_name'', JStr ''T''),
                (''classifications'', JList [JDict [(''issue'', JStr ''slow''), (''node_id'', JStr ''n1'')], JInt 3])]))
        [''a.json''] False
     = Inr (JDict [(''taxonomy_name'', JStr ''T''),
                (''classifications'', JList [JDict [(''issue'', JStr ''slow''), (''node_id'', JStr ''n1'')]])])"
proof -
  let ?ld = "\<lambda>p::string. (Inr (JDict [(''taxonomy_name'', JStr ''T''),
                (''classifications'', JList [JDict [(''issue'', JStr ''slow''), (''node_id'', JStr ''n1'')], JInt 3])])
              :: string + json)"
  have ok: "file_ok ?ld p" for p
    by (simp add: merge_eval)
  have one: "merge_taxonomies (\<lambda>v. []) ?ld [''a.json''] False
     = Inr (JDict [(''taxonomy_name'', JStr ''T''),
                (''classifications'', JList [JDict [(''issue'', JStr ''slow''), (''node_id'', JStr ''n1'')]])])"
    using merge_refines [where ign = False and files = "[''a.json'']" and load_json = ?ld
             and R = "\<lambda>v. []"] ok
    by (simp add: merge_eval)
  have same: "?ld ''a.json'' = ?ld ''b.json''" by simp
  from merge_idempotent [OF ok ok same, where R = "\<lambda>v. []" and ign = False]
  have "merge_taxonomies (\<lambda>v. []) ?ld [''a.json'', ''b.json''] False
          = merge_taxonomies (\<lambda>v. []) ?ld [''a.json''] False" .
  with one ok [of "''a.json''"] show ?thesis by (simp only: simp_thms)
qed


section \<open>Shape and order of the merged result\<close>



end
